theory Spec2Isabelle
  imports Complex_Main "HOL-Library.Multiset" "HOL-Library.Word"
begin

section \<open>Dates (the date-fns functions used by src/utils/calculator.ts)\<close>

text \<open>
  A JavaScript \<^verbatim>\<open>Date\<close> is a millisecond timestamp. The calculator only ever looks at
  dates through date-fns, which works in the local time zone. The model takes a \<open>Date\<close> to
  be the number of milliseconds of local wall-clock time since the local epoch, in a zone
  with a fixed offset (no daylight-saving shifts) and ranges over valid dates only (no
  \<^verbatim>\<open>Invalid Date\<close>).

  Modelled from the spec: the date-fns library is not part of the repository; the six
  functions below follow the contract of section 4.1 and the library's documentation
  (\<^verbatim>\<open>startOfDay\<close> truncates to midnight, \<^verbatim>\<open>differenceInCalendarDays\<close> is the number
  of midnights between its arguments, \<^verbatim>\<open>isAfter\<close>/\<^verbatim>\<open>isBefore\<close> compare timestamps,
  \<^verbatim>\<open>max\<close>/\<^verbatim>\<open>min\<close> pick the later/earlier date of the two-element arrays they are
  called with).
\<close>

type_synonym Date = int

definition millisecondsInDay :: int where
  "millisecondsInDay = 86400000"

definition startOfDay :: "Date \<Rightarrow> Date" where
  "startOfDay d = d - d mod millisecondsInDay"

definition differenceInCalendarDays :: "Date \<Rightarrow> Date \<Rightarrow> int" where
  "differenceInCalendarDays laterDate earlierDate =
     (startOfDay laterDate - startOfDay earlierDate) div millisecondsInDay"

definition isAfter :: "Date \<Rightarrow> Date \<Rightarrow> bool" where
  "isAfter d dateToCompare = (dateToCompare < d)"

definition isBefore :: "Date \<Rightarrow> Date \<Rightarrow> bool" where
  "isBefore d dateToCompare = (d < dateToCompare)"

definition maxDate :: "Date \<Rightarrow> Date \<Rightarrow> Date" where
  "maxDate a b = (if a < b then b else a)"

definition minDate :: "Date \<Rightarrow> Date \<Rightarrow> Date" where
  "minDate a b = (if b < a then b else a)"

section \<open>Numbers and strings of the language\<close>

text \<open>
  A JavaScript number is an IEEE 754 double. The day counts of the calculator are
  integers far below \<open>2 ^ 53\<close>, which doubles hold exactly; they are modelled as \<open>int\<close>.
  The two percentages are quotients and are rounded: \<^verbatim>\<open>(a / b) * 100\<close> rounds the
  quotient to the nearest double and then rounds the product. A finite double is
  modelled by the rational number it denotes, and \<open>toDouble\<close> rounds a rational to the
  nearest double, ties to the even significand: with \<open>2 ^ e \<le> \<bar>q\<bar> < 2 ^ (e + 1)\<close>, the
  doubles around \<open>q\<close> are the multiples of \<open>2 ^ (e - 52)\<close> (of \<open>2 ^ (- 1074)\<close> in the
  subnormal range). Infinities and NaN are not represented; the only division that can
  meet a zero divisor is discussed at \<open>determineStatus\<close>.
\<close>

function bitLength :: "int \<Rightarrow> int" where
  "bitLength n = (if n \<le> 0 then 0 else 1 + bitLength (n div 2))"
  by pat_completeness auto
termination
  by (relation "measure nat") auto

declare bitLength.simps [simp del]

definition pow2 :: "int \<Rightarrow> rat" where
  "pow2 e = power_int 2 e"

text \<open>For \<open>a > 0\<close>, the exponent \<open>e\<close> with \<open>2 ^ e \<le> a < 2 ^ (e + 1)\<close>.\<close>

definition binaryExponent :: "rat \<Rightarrow> int" where
  "binaryExponent a =
     (let (n, d) = quotient_of a;
          e0 = bitLength n - bitLength d
      in if pow2 e0 \<le> a then e0 else e0 - 1)"

definition roundHalfEven :: "rat \<Rightarrow> int" where
  "roundHalfEven x =
     (let f = \<lfloor>x\<rfloor>; r = x - of_int f
      in if r < 1 / 2 then f
         else if 1 / 2 < r then f + 1
         else if even f then f else f + 1)"

definition toDouble :: "rat \<Rightarrow> rat" where
  "toDouble q =
     (if q = 0 then 0
      else (let a = \<bar>q\<bar>;
                ulp = pow2 (max (binaryExponent a - 52) (- 1074))
            in sgn q * of_int (roundHalfEven (a / ulp)) * ulp))"

definition jsDivide :: "rat \<Rightarrow> rat \<Rightarrow> rat" where
  "jsDivide a b = toDouble (a / b)"

definition jsMultiply :: "rat \<Rightarrow> rat \<Rightarrow> rat" where
  "jsMultiply a b = toDouble (a * b)"

text \<open>
  A JavaScript string is a sequence of UTF-16 code units. \<open>utf16\<close> writes an ASCII
  literal as one. \<^verbatim>\<open>String.prototype.trim\<close> strips the white space and line
  terminator code points of the language at both ends.
\<close>

type_synonym jsString = "16 word list"

definition utf16 :: "string \<Rightarrow> jsString" where
  "utf16 s = map of_char s"



section \<open>Data model (src/types, as used by the calculator)\<close>

text \<open>
  Modelled from the spec: the type declarations of \<^verbatim>\<open>../types\<close> are not among the
  sources; the records follow section 3 of the specification and the field accesses of
  calculator.ts. Field names carry a prefix where two records of the source share one.
  Day counts are integers; the percentage is a double, given as the rational it denotes.
\<close>

datatype PhaseType = OPT | STEM

record EADPeriod =
  ead_type :: PhaseType
  ead_startDate :: Date
  ead_endDate :: Date

record EmploymentSpan =
  employerName :: jsString
  span_startDate :: Date
  span_endDate :: "Date option"

record MergedSpan =
  startDate :: Date
  endDate :: Date

record UnemploymentSummary =
  phase :: PhaseType
  usedDays :: int
  remainingDays :: int
  limitDays :: int
  percentage :: rat

datatype ComplianceStatus = normal | warning | violation

record CalculationResult =
  phase1 :: UnemploymentSummary
  phase2 :: "UnemploymentSummary option"
  totalUsedDays :: int
  totalAllowedDays :: int
  status :: ComplianceStatus
  statusMessage :: string

section \<open>The calculator (src/utils/calculator.ts)\<close>

definition OPT_UNEMPLOYMENT_LIMIT :: int where
  "OPT_UNEMPLOYMENT_LIMIT = 90"

definition TOTAL_UNEMPLOYMENT_LIMIT_WITH_STEM :: int where
  "TOTAL_UNEMPLOYMENT_LIMIT_WITH_STEM = 150"

definition normalizeDate :: "Date \<Rightarrow> Date" where
  "normalizeDate d = startOfDay d"

text \<open>\<^verbatim>\<open>new Date()\<close> is the parameter \<open>now\<close>.\<close>

definition getNormalizedReferenceDate :: "Date option \<Rightarrow> Date \<Rightarrow> Date" where
  "getNormalizedReferenceDate referenceDate now =
     normalizeDate (case referenceDate of Some d \<Rightarrow> d | None \<Rightarrow> now)"

definition calculateDaysBetween :: "Date \<Rightarrow> Date \<Rightarrow> int" where
  "calculateDaysBetween start end =
     differenceInCalendarDays (normalizeDate end) (normalizeDate start) + 1"

definition clampSpanToEAD :: "EmploymentSpan \<Rightarrow> EADPeriod \<Rightarrow> Date \<Rightarrow> MergedSpan option" where
  "clampSpanToEAD espan eadPeriod referenceDate =
     (let spanStart = normalizeDate (span_startDate espan);
          spanEnd = (case span_endDate espan of
                       Some e \<Rightarrow> normalizeDate e
                     | None \<Rightarrow> referenceDate);
          eadStart = normalizeDate (ead_startDate eadPeriod);
          eadEnd = normalizeDate (ead_endDate eadPeriod)
      in if isAfter spanStart eadEnd \<or> isBefore spanEnd eadStart
         then None
         else Some \<lparr> startDate = maxDate spanStart eadStart,
                      endDate = minDate spanEnd eadEnd \<rparr>)"

text \<open>
  The body of the \<^verbatim>\<open>for\<close> loop of \<^verbatim>\<open>mergeOverlappingSpans\<close>: the first argument is
  what remains of \<^verbatim>\<open>spans\<close> from index \<open>i\<close> on, the other two are the loop's variables
  \<^verbatim>\<open>merged\<close> and \<^verbatim>\<open>current\<close>. After the last element, \<^verbatim>\<open>current\<close> is pushed.
\<close>

fun mergeLoop :: "MergedSpan list \<Rightarrow> MergedSpan list \<Rightarrow> MergedSpan \<Rightarrow> MergedSpan list" where
  "mergeLoop [] merged current = merged @ [current]"
| "mergeLoop (next # rest) merged current =
     (let daysBetween = differenceInCalendarDays (startDate next) (endDate current)
      in if daysBetween \<le> 1
         then mergeLoop rest merged
                \<lparr> startDate = startDate current,
                  endDate = maxDate (endDate current) (endDate next) \<rparr>
         else mergeLoop rest (merged @ [current]) next)"

definition mergeOverlappingSpans :: "MergedSpan list \<Rightarrow> MergedSpan list" where
  "mergeOverlappingSpans spans =
     (case spans of
        [] \<Rightarrow> []
      | first # rest \<Rightarrow> mergeLoop rest [] first)"

text \<open>
  \<^verbatim>\<open>Array.prototype.sort\<close> with a comparator: a stable sort, here by insertion. An
  element goes before the first element that the comparator does not put before it.
\<close>

fun insertSorted :: "('a \<Rightarrow> 'a \<Rightarrow> int) \<Rightarrow> 'a \<Rightarrow> 'a list \<Rightarrow> 'a list" where
  "insertSorted cmp x [] = [x]"
| "insertSorted cmp x (y # ys) =
     (if cmp x y \<le> 0 then x # y # ys else y # insertSorted cmp x ys)"

definition arraySort :: "('a \<Rightarrow> 'a \<Rightarrow> int) \<Rightarrow> 'a list \<Rightarrow> 'a list" where
  "arraySort cmp xs = foldr (insertSorted cmp) xs []"

text \<open>The three steps of \<^verbatim>\<open>calculateEmployedDays\<close> before the final sum.\<close>

definition clampAll :: "EmploymentSpan list \<Rightarrow> EADPeriod \<Rightarrow> Date \<Rightarrow> MergedSpan list" where
  "clampAll employmentSpans eadPeriod referenceDate =
     List.map_filter (\<lambda>espan. clampSpanToEAD espan eadPeriod referenceDate) employmentSpans"

definition sortByStart :: "MergedSpan list \<Rightarrow> MergedSpan list" where
  "sortByStart clampedSpans =
     arraySort (\<lambda>a b. differenceInCalendarDays (startDate a) (startDate b)) clampedSpans"

definition calculateEmployedDays :: "EmploymentSpan list \<Rightarrow> EADPeriod \<Rightarrow> Date \<Rightarrow> int" where
  "calculateEmployedDays employmentSpans eadPeriod referenceDate =
     (let clampedSpans = sortByStart (clampAll employmentSpans eadPeriod referenceDate);
          mergedSpans = mergeOverlappingSpans clampedSpans
      in foldl (\<lambda>total mspan. total + calculateDaysBetween (startDate mspan) (endDate mspan))
           0 mergedSpans)"

definition calculateUnemploymentForPeriod ::
  "EmploymentSpan list \<Rightarrow> EADPeriod \<Rightarrow> int \<Rightarrow> Date \<Rightarrow> UnemploymentSummary" where
  "calculateUnemploymentForPeriod employmentSpans eadPeriod limit referenceDate =
     (let eadStart = normalizeDate (ead_startDate eadPeriod);
          eadEnd = normalizeDate (ead_endDate eadPeriod);
          effectiveEnd = minDate eadEnd referenceDate
      in if isBefore effectiveEnd eadStart
         then \<lparr> phase = ead_type eadPeriod, usedDays = 0, remainingDays = limit,
                limitDays = limit, percentage = 0 \<rparr>
         else
           (let adjustedPeriod = eadPeriod \<lparr> ead_startDate := eadStart,
                                             ead_endDate := effectiveEnd \<rparr>;
                totalDaysInPeriod = calculateDaysBetween (ead_startDate adjustedPeriod)
                                      (ead_endDate adjustedPeriod);
                employedDays = calculateEmployedDays employmentSpans adjustedPeriod
                                 referenceDate;
                used = max 0 (totalDaysInPeriod - employedDays);
                remaining = max 0 (limit - used);
                pct = (if limit > 0 then jsMultiply (jsDivide (of_int used) (of_int limit)) 100
                       else if used > 0 then 100
                       else 0)
            in \<lparr> phase = ead_type eadPeriod, usedDays = used, remainingDays = remaining,
                  limitDays = limit, percentage = pct \<rparr>))"

text \<open>
  In \<^verbatim>\<open>determineStatus\<close> the divisor is not guarded. With \<^verbatim>\<open>totalAllowedDays = 0\<close> the
  function is past its first test only when \<^verbatim>\<open>totalUsedDays \<le> 0\<close>; the quotient is then
  NaN or \<^verbatim>\<open>-Infinity\<close>, for which \<^verbatim>\<open>percentage >= 80\<close> is false, as it is for the value
  0 that the quotient has here.
\<close>

definition determineStatus :: "int \<Rightarrow> int \<Rightarrow> ComplianceStatus \<times> string" where
  "determineStatus totalUsed totalAllowed =
     (if totalUsed > totalAllowed
      then (violation,
            ''You have exceeded the allowed unemployment days. You may be out of status. Please consult your international student office immediately.'')
      else
        (let pct = jsMultiply (jsDivide (of_int totalUsed) (of_int totalAllowed)) 100
         in if pct \<ge> 80
            then (warning,
                  ''You are approaching the unemployment limit. Please find employment soon to maintain status.'')
            else (normal, ''Your unemployment days are within the allowed limit.'')))"

definition calculateUnemployment ::
  "EADPeriod option \<Rightarrow> EADPeriod option \<Rightarrow> EmploymentSpan list \<Rightarrow> Date option \<Rightarrow> Date
     \<Rightarrow> CalculationResult option" where
  "calculateUnemployment optPeriod stemPeriod employmentSpans optionsReferenceDate now =
     (case optPeriod of
        None \<Rightarrow> None
      | Some opt \<Rightarrow>
          (let referenceDate = getNormalizedReferenceDate optionsReferenceDate now;
               p1 = calculateUnemploymentForPeriod employmentSpans opt
                      OPT_UNEMPLOYMENT_LIMIT referenceDate;
               (p2, totalUsed, totalAllowed) =
                 (case stemPeriod of
                    None \<Rightarrow> (None, usedDays p1, OPT_UNEMPLOYMENT_LIMIT)
                  | Some stem \<Rightarrow>
                      (let availableStemDays =
                             max 0 (TOTAL_UNEMPLOYMENT_LIMIT_WITH_STEM - usedDays p1);
                           q = calculateUnemploymentForPeriod employmentSpans stem
                                 availableStemDays referenceDate
                       in (Some q, usedDays p1 + usedDays q,
                           TOTAL_UNEMPLOYMENT_LIMIT_WITH_STEM)));
               (st, message) = determineStatus totalUsed totalAllowed
           in Some \<lparr> phase1 = p1, phase2 = p2, totalUsedDays = totalUsed,
                       totalAllowedDays = totalAllowed, status = st,
                       statusMessage = message \<rparr>))"



section \<open>Notions used to state the properties\<close>

text \<open>The calendar day a timestamp falls on, counted from the epoch.\<close>

definition dayNumber :: "Date \<Rightarrow> int" where
  "dayNumber d = d div millisecondsInDay"

text \<open>The end of an employment span: the reference date when the span is ongoing.\<close>

definition resolvedEnd :: "EmploymentSpan \<Rightarrow> Date \<Rightarrow> Date" where
  "resolvedEnd espan referenceDate =
     (case span_endDate espan of Some e \<Rightarrow> normalizeDate e | None \<Rightarrow> referenceDate)"

text \<open>
  Consecutive spans are more than one calendar day apart: the day difference that
  \<open>mergeLoop\<close> computes between a span's end and the next span's start exceeds 1.
\<close>

fun separated :: "MergedSpan list \<Rightarrow> bool" where
  "separated (a # b # rest) =
     (differenceInCalendarDays (startDate b) (endDate a) > 1 \<and> separated (b # rest))"
| "separated _ = True"

text \<open>A merged list: every span runs from a start to a later or equal end, and
  consecutive spans are separated.\<close>

definition mergedForm :: "MergedSpan list \<Rightarrow> bool" where
  "mergedForm spans = ((\<forall>m \<in> set spans. startDate m \<le> endDate m) \<and> separated spans)"

text \<open>Ascending by the calendar day of the start date.\<close>

definition sortedByStart :: "MergedSpan list \<Rightarrow> bool" where
  "sortedByStart spans = sorted (map (\<lambda>m. dayNumber (startDate m)) spans)"

text \<open>Calendar day \<open>d\<close> lies in one of the spans.\<close>

definition covers :: "MergedSpan list \<Rightarrow> int \<Rightarrow> bool" where
  "covers spans d =
     (\<exists>m \<in> set spans. dayNumber (startDate m) \<le> d \<and> d \<le> dayNumber (endDate m))"

text \<open>The sum of the inclusive day counts of a list of spans.\<close>

definition employedDaysOf :: "MergedSpan list \<Rightarrow> int" where
  "employedDaysOf spans = (\<Sum>m \<leftarrow> spans. calculateDaysBetween (startDate m) (endDate m))"

section \<open>Calendar days\<close>

lemma startOfDay_dayNumber: "startOfDay d = dayNumber d * millisecondsInDay"
  by (simp add: startOfDay_def dayNumber_def minus_mod_eq_div_mult)

lemma dayNumber_startOfDay [simp]: "dayNumber (startOfDay d) = dayNumber d"
  by (simp add: startOfDay_dayNumber) (simp add: dayNumber_def millisecondsInDay_def)

lemma differenceInCalendarDays_dayNumber:
  "differenceInCalendarDays a b = dayNumber a - dayNumber b"
proof -
  have "startOfDay a - startOfDay b = (dayNumber a - dayNumber b) * millisecondsInDay"
    by (simp add: startOfDay_dayNumber algebra_simps)
  then show ?thesis
    by (simp add: differenceInCalendarDays_def) (simp add: millisecondsInDay_def)
qed

lemma dayNumber_mono: "a \<le> b \<Longrightarrow> dayNumber a \<le> dayNumber b"
  by (simp add: dayNumber_def millisecondsInDay_def zdiv_mono1)



lemma startOfDay_idem [simp]: "startOfDay (startOfDay d) = startOfDay d"
  by (metis startOfDay_dayNumber dayNumber_startOfDay)

lemma dayNumber_maxDate: "dayNumber (maxDate a b) = max (dayNumber a) (dayNumber b)"
  using dayNumber_mono [of a b] dayNumber_mono [of b a] by (auto simp: maxDate_def max_def)

lemma dayNumber_minDate: "dayNumber (minDate a b) = min (dayNumber a) (dayNumber b)"
  using dayNumber_mono [of a b] dayNumber_mono [of b a] by (auto simp: minDate_def min_def)

lemma calculateDaysBetween_dayNumber:
  "calculateDaysBetween s e = dayNumber e - dayNumber s + 1"
  by (simp add: calculateDaysBetween_def normalizeDate_def differenceInCalendarDays_dayNumber)

text \<open>
  Claim C8. For normalized dates \<open>s \<le> e\<close>, \<open>calculateDaysBetween s e\<close> is the number of
  whole days from \<open>s\<close> to \<open>e\<close> plus one (the difference \<open>e - s\<close> is a whole number of
  days), so it is at least one; and \<open>calculateDaysBetween d d = 1\<close> for every date \<open>d\<close>.
\<close>

theorem calculateDaysBetween_inclusive:
  assumes "normalizeDate s = s" and "normalizeDate e = e" and "s \<le> e"
  shows "calculateDaysBetween s e = (e - s) div millisecondsInDay + 1 \<and>
         (calculateDaysBetween s e - 1) * millisecondsInDay = e - s \<and>
         1 \<le> calculateDaysBetween s e \<and>
         calculateDaysBetween d d = 1"
proof -
  have s: "s = dayNumber s * millisecondsInDay" and e: "e = dayNumber e * millisecondsInDay"
    using assms(1,2) by (simp_all add: normalizeDate_def startOfDay_dayNumber)
  have diff: "e - s = (dayNumber e - dayNumber s) * millisecondsInDay"
    using s e by (metis left_diff_distrib)
  have "(e - s) div millisecondsInDay = dayNumber e - dayNumber s"
    unfolding diff by (simp add: millisecondsInDay_def)
  moreover have "dayNumber s \<le> dayNumber e"
    using assms(3) by (rule dayNumber_mono)
  ultimately show ?thesis
    using diff by (simp add: calculateDaysBetween_dayNumber)
qed

theorem calculateDaysBetween_inclusive_witness:
  "normalizeDate 172800000 = 172800000 \<and> normalizeDate 432000000 = 432000000 \<and>
   (172800000 :: int) \<le> 432000000 \<and>
   calculateDaysBetween 172800000 432000000 = 4 \<and>
   calculateDaysBetween 172800123 172800123 = 1"
proof -
  have a: "normalizeDate 172800000 = 172800000"
    by (simp add: normalizeDate_def startOfDay_def millisecondsInDay_def)
  have b: "normalizeDate 432000000 = 432000000"
    by (simp add: normalizeDate_def startOfDay_def millisecondsInDay_def)
  have c: "(172800000 :: int) \<le> 432000000" by simp
  show ?thesis
    using a b c calculateDaysBetween_inclusive [OF a b c, of 172800123]
    by (simp add: millisecondsInDay_def)
qed

section \<open>The span clamper\<close>

text \<open>
  Claim C5. With the end of the span resolved to the reference date when it is ongoing,
  \<open>clampSpanToEAD\<close> returns \<open>None\<close> exactly when the (normalized) start of the span is
  after the end of the period or the resolved end of the span is before the start of the
  period; otherwise it returns the intersection, from the later of the two starts to the
  earlier of the two ends.
\<close>

theorem clampSpanToEAD_intersection:
  "(clampSpanToEAD espan period referenceDate = None \<longleftrightarrow>
      normalizeDate (span_startDate espan) > normalizeDate (ead_endDate period) \<or>
      resolvedEnd espan referenceDate < normalizeDate (ead_startDate period)) \<and>
   (\<not> (normalizeDate (span_startDate espan) > normalizeDate (ead_endDate period) \<or>
        resolvedEnd espan referenceDate < normalizeDate (ead_startDate period)) \<longrightarrow>
    clampSpanToEAD espan period referenceDate =
      Some \<lparr> startDate = max (normalizeDate (span_startDate espan))
                             (normalizeDate (ead_startDate period)),
             endDate = min (resolvedEnd espan referenceDate)
                           (normalizeDate (ead_endDate period)) \<rparr>)"
  by (auto simp: clampSpanToEAD_def resolvedEnd_def Let_def isAfter_def isBefore_def
        maxDate_def minDate_def max_def min_def)

theorem clampSpanToEAD_intersection_witness:
  "clampSpanToEAD \<lparr> employerName = utf16 ''Acme'', span_startDate = 86400000, span_endDate = None \<rparr>
     \<lparr> ead_type = OPT, ead_startDate = 172800000, ead_endDate = 864000000 \<rparr> 432000000
   = Some \<lparr> startDate = 172800000, endDate = 432000000 \<rparr> \<and>
   clampSpanToEAD
     \<lparr> employerName = utf16 ''Acme'', span_startDate = 86400000, span_endDate = Some 100000000 \<rparr>
     \<lparr> ead_type = OPT, ead_startDate = 172800000, ead_endDate = 864000000 \<rparr> 432000000
   = None"
  using clampSpanToEAD_intersection
      [of "\<lparr> employerName = utf16 ''Acme'', span_startDate = 86400000, span_endDate = None \<rparr>"
          "\<lparr> ead_type = OPT, ead_startDate = 172800000, ead_endDate = 864000000 \<rparr>" 432000000]
    clampSpanToEAD_intersection
      [of "\<lparr> employerName = utf16 ''Acme'', span_startDate = 86400000,
              span_endDate = Some 100000000 \<rparr>"
          "\<lparr> ead_type = OPT, ead_startDate = 172800000, ead_endDate = 864000000 \<rparr>" 432000000]
  by (simp add: resolvedEnd_def normalizeDate_def startOfDay_def millisecondsInDay_def)

section \<open>Powers of two\<close>

lemma pow2_pos [simp]: "0 < pow2 e"
  by (simp add: pow2_def)

lemma pow2_nonneg [simp]: "0 \<le> pow2 e"
  by (rule less_imp_le [OF pow2_pos])

lemma pow2_nonzero [simp]: "pow2 e \<noteq> 0"
  by (metis pow2_pos less_irrefl)

lemma pow2_add: "pow2 (a + b) = pow2 a * pow2 b"
  by (simp add: pow2_def power_int_add)

lemma pow2_mono: "a \<le> b \<Longrightarrow> pow2 a \<le> pow2 b"
  by (simp add: pow2_def power_int_increasing)

lemma pow2_strict_mono: "a < b \<Longrightarrow> pow2 a < pow2 b"
  by (simp add: pow2_def power_int_strict_increasing)

lemma pow2_nat: "0 \<le> e \<Longrightarrow> pow2 e = of_int (2 ^ nat e)"
  by (simp add: pow2_def power_int_def)

lemma pow2_diff: "pow2 a / pow2 b = pow2 (a - b)"
  using pow2_add [of "a - b" b] by (simp add: field_simps)

section \<open>Bit length\<close>

lemma bitLength_bounds:
  "0 < n \<Longrightarrow> 0 < bitLength n \<and> 2 ^ nat (bitLength n - 1) \<le> n \<and> n < 2 ^ nat (bitLength n)"
proof (induction n rule: bitLength.induct)
  case (1 n)
  have unfold: "bitLength n = 1 + bitLength (n div 2)"
    using "1.prems" by (subst bitLength.simps) simp
  show ?case
  proof (cases "n div 2 = 0")
    case True
    then have "n = 1" using "1.prems" by presburger
    moreover have "bitLength 0 = 0" by (subst bitLength.simps) simp
    ultimately show ?thesis using unfold by simp
  next
    case False
    define m where "m = n div 2"
    define b where "b = bitLength m"
    have mpos: "0 < m" using False "1.prems" by (simp add: m_def)
    have IH: "0 < b \<and> 2 ^ nat (b - 1) \<le> m \<and> m < 2 ^ nat b"
      using "1.IH" "1.prems" mpos by (simp add: m_def b_def)
    have bn: "bitLength n = 1 + b" using unfold by (simp add: b_def m_def)
    have n2: "2 * m \<le> n \<and> n \<le> 2 * m + 1" unfolding m_def by presburger
    have s1: "nat (1 + b - 1) = Suc (nat (b - 1))" using IH by (simp add: Suc_nat_eq_nat_zadd1)
    have s2: "nat (1 + b) = Suc (nat b)" using IH by (simp add: Suc_nat_eq_nat_zadd1 add.commute)
    have "(2::int) ^ nat (1 + b - 1) \<le> n"
      unfolding s1 using IH n2 by simp
    moreover have "n < (2::int) ^ nat (1 + b)"
      unfolding s2 using IH n2 by simp
    ultimately show ?thesis using bn IH by simp
  qed
qed

lemma bitLength_rat:
  assumes "0 < n"
  shows "pow2 (bitLength n - 1) \<le> of_int n" and "of_int n < pow2 (bitLength n)"
proof -
  have b: "0 < bitLength n" "2 ^ nat (bitLength n - 1) \<le> n" "n < 2 ^ nat (bitLength n)"
    using bitLength_bounds [OF assms] by simp_all
  have "pow2 (bitLength n - 1) = of_int (2 ^ nat (bitLength n - 1))"
    using b(1) by (intro pow2_nat) simp
  also have "\<dots> \<le> of_int n" using b(2) by (simp only: of_int_le_iff)
  finally show "pow2 (bitLength n - 1) \<le> of_int n" .
  have "(of_int n :: rat) < of_int (2 ^ nat (bitLength n))"
    using b(3) by (simp only: of_int_less_iff)
  also have "\<dots> = pow2 (bitLength n)"
    using b(1) by (intro pow2_nat [symmetric]) simp
  finally show "of_int n < pow2 (bitLength n)" .
qed

lemma binaryExponent_bracket:
  assumes "0 < a"
  shows "pow2 (binaryExponent a) \<le> a" and "a < pow2 (binaryExponent a + 1)"
proof -
  obtain n d where q: "quotient_of a = (n, d)" by (cases "quotient_of a")
  have d: "0 < d" using q by (rule quotient_of_denom_pos)
  have a: "a = of_int n / of_int d" using q by (rule quotient_of_div)
  have n: "0 < n" using assms d unfolding a by (simp add: zero_less_divide_iff)
  define e0 where "e0 = bitLength n - bitLength d"
  have lo: "pow2 (e0 - 1) < a"
  proof -
    have "pow2 (e0 - 1) * of_int d < pow2 (e0 - 1) * pow2 (bitLength d)"
      using bitLength_rat(2) [OF d] by simp
    also have "\<dots> = pow2 (bitLength n - 1)"
      by (simp add: e0_def flip: pow2_add)
    also have "\<dots> \<le> of_int n" using bitLength_rat(1) [OF n] .
    finally show ?thesis using d unfolding a by (simp add: pos_less_divide_eq)
  qed
  have hi: "a < pow2 (e0 + 1)"
  proof -
    have "of_int n < pow2 (bitLength n)" using bitLength_rat(2) [OF n] .
    also have "\<dots> = pow2 (e0 + 1) * pow2 (bitLength d - 1)"
      by (simp add: e0_def flip: pow2_add)
    also have "\<dots> \<le> pow2 (e0 + 1) * of_int d"
      using bitLength_rat(1) [OF d] by simp
    finally show ?thesis using d unfolding a by (simp add: pos_divide_less_eq)
  qed
  have e: "binaryExponent a = (if pow2 e0 \<le> a then e0 else e0 - 1)"
    by (simp add: binaryExponent_def q e0_def Let_def)
  show "pow2 (binaryExponent a) \<le> a"
    using lo by (simp add: e)
  show "a < pow2 (binaryExponent a + 1)"
    using hi by (auto simp: e)
qed

lemma binaryExponent_mono:
  assumes "0 < x" and "x \<le> y"
  shows "binaryExponent x \<le> binaryExponent y"
proof (rule ccontr)
  assume "\<not> binaryExponent x \<le> binaryExponent y"
  then have "binaryExponent y + 1 \<le> binaryExponent x" by simp
  then have "pow2 (binaryExponent y + 1) \<le> pow2 (binaryExponent x)" by (rule pow2_mono)
  also have "\<dots> \<le> x" using assms(1) by (rule binaryExponent_bracket)
  also have "\<dots> \<le> y" by fact
  also have "\<dots> < pow2 (binaryExponent y + 1)"
    using assms by (intro binaryExponent_bracket) simp
  finally show False by simp
qed

section \<open>Rounding to an integer\<close>

lemma roundHalfEven_of_int [simp]: "roundHalfEven (of_int k) = k"
  by (simp add: roundHalfEven_def)

lemma roundHalfEven_error: "\<bar>of_int (roundHalfEven x) - x\<bar> \<le> 1 / 2"
proof -
  have "of_int \<lfloor>x\<rfloor> \<le> x" "x < of_int \<lfloor>x\<rfloor> + 1" by linarith+
  then show ?thesis by (auto simp: roundHalfEven_def Let_def)
qed

lemma roundHalfEven_mono:
  assumes "x \<le> y"
  shows "roundHalfEven x \<le> roundHalfEven y"
proof -
  have fx: "of_int \<lfloor>x\<rfloor> \<le> x" "x < of_int \<lfloor>x\<rfloor> + 1" by linarith+
  have fy: "of_int \<lfloor>y\<rfloor> \<le> y" "y < of_int \<lfloor>y\<rfloor> + 1" by linarith+
  have "\<lfloor>x\<rfloor> \<le> \<lfloor>y\<rfloor>" using assms by (rule floor_mono)
  then consider "\<lfloor>x\<rfloor> < \<lfloor>y\<rfloor>" | "\<lfloor>x\<rfloor> = \<lfloor>y\<rfloor>" by linarith
  then show ?thesis
  proof cases
    case 1
    have "roundHalfEven x \<le> \<lfloor>x\<rfloor> + 1" by (simp add: roundHalfEven_def Let_def)
    also have "\<dots> \<le> \<lfloor>y\<rfloor>" using 1 by simp
    also have "\<dots> \<le> roundHalfEven y" by (simp add: roundHalfEven_def Let_def)
    finally show ?thesis .
  next
    case 2
    then show ?thesis using assms by (auto simp: roundHalfEven_def Let_def)
  qed
qed

section \<open>Rounding to a double\<close>

text \<open>
  Three familiar roundings: the double written \<^verbatim>\<open>0.1\<close>, and the two integers next to
  \<open>2 ^ 53\<close> that lie half way between doubles and go to the even significand.
\<close>

lemma toDouble_examples:
  "toDouble (1 / 10) = 3602879701896397 / 36028797018963968"
  "toDouble 9007199254740993 = 9007199254740992"
  "toDouble 9007199254740995 = 9007199254740996"
  "toDouble (- 1 / 3) = - 6004799503160661 / 18014398509481984"
  by code_simp+

lemma toDouble_pos:
  assumes "0 < x"
  shows "toDouble x =
           of_int (roundHalfEven (x / pow2 (max (binaryExponent x - 52) (- 1074)))) *
           pow2 (max (binaryExponent x - 52) (- 1074))"
  using assms by (simp add: toDouble_def Let_def)

lemma roundHalfEven_nonneg: "0 \<le> x \<Longrightarrow> 0 \<le> roundHalfEven x"
  using roundHalfEven_mono [of 0 x] roundHalfEven_of_int [of 0] by simp

lemma toDouble_nonneg:
  assumes "0 \<le> x"
  shows "0 \<le> toDouble x"
proof (cases "x = 0")
  case True
  then show ?thesis by (simp add: toDouble_def)
next
  case False
  then have x: "0 < x" using assms by simp
  have "0 \<le> roundHalfEven (x / pow2 (max (binaryExponent x - 52) (- 1074)))"
    using x by (intro roundHalfEven_nonneg) simp
  then show ?thesis
    using x by (simp add: toDouble_pos)
qed

lemma toDouble_below_power:
  assumes "0 < x" and "x \<le> pow2 e" and "max (binaryExponent x - 52) (- 1074) \<le> e"
  shows "toDouble x \<le> pow2 e"
proof -
  define k where "k = max (binaryExponent x - 52) (- 1074)"
  have "x / pow2 k \<le> pow2 e / pow2 k"
    by (rule divide_right_mono [OF assms(2)]) simp
  also have "\<dots> = of_int (2 ^ nat (e - k))"
    using assms(3) by (simp add: pow2_diff pow2_nat k_def)
  finally have "roundHalfEven (x / pow2 k) \<le> roundHalfEven (of_int (2 ^ nat (e - k)))"
    by (rule roundHalfEven_mono)
  then have "roundHalfEven (x / pow2 k) \<le> 2 ^ nat (e - k)"
    by (simp only: roundHalfEven_of_int)
  then have "(of_int (roundHalfEven (x / pow2 k)) :: rat) \<le> of_int (2 ^ nat (e - k))"
    by (simp only: of_int_le_iff)
  then have "of_int (roundHalfEven (x / pow2 k)) * pow2 k \<le> of_int (2 ^ nat (e - k)) * pow2 k"
    by (simp add: mult_right_mono)
  also have "of_int (2 ^ nat (e - k)) * pow2 k = pow2 (e - k) * pow2 k"
    using assms(3) by (simp add: pow2_nat k_def)
  also have "\<dots> = pow2 e" by (simp flip: pow2_add)
  finally show ?thesis using assms(1) by (simp add: toDouble_pos k_def)
qed

lemma toDouble_above_power:
  assumes "0 < x" and "pow2 e \<le> x" and "max (binaryExponent x - 52) (- 1074) \<le> e"
  shows "pow2 e \<le> toDouble x"
proof -
  define k where "k = max (binaryExponent x - 52) (- 1074)"
  have "of_int (2 ^ nat (e - k)) = pow2 e / pow2 k"
    using assms(3) by (simp add: pow2_diff pow2_nat k_def)
  also have "\<dots> \<le> x / pow2 k"
    by (rule divide_right_mono [OF assms(2)]) simp
  finally have "roundHalfEven (of_int (2 ^ nat (e - k))) \<le> roundHalfEven (x / pow2 k)"
    by (rule roundHalfEven_mono)
  then have "2 ^ nat (e - k) \<le> roundHalfEven (x / pow2 k)"
    by (simp only: roundHalfEven_of_int)
  then have "(of_int (2 ^ nat (e - k)) :: rat) \<le> of_int (roundHalfEven (x / pow2 k))"
    by (simp only: of_int_le_iff)
  then have le: "of_int (2 ^ nat (e - k)) * pow2 k \<le> of_int (roundHalfEven (x / pow2 k)) * pow2 k"
    by (simp add: mult_right_mono)
  have "pow2 e = pow2 (e - k) * pow2 k" by (simp flip: pow2_add)
  also have "\<dots> = of_int (2 ^ nat (e - k)) * pow2 k"
    using assms(3) by (simp add: pow2_nat k_def)
  also note le
  finally show ?thesis using assms(1) by (simp add: toDouble_pos k_def)
qed

lemma toDouble_mono_pos:
  assumes "0 < x" and "x \<le> y"
  shows "toDouble x \<le> toDouble y"
proof -
  define kx where "kx = max (binaryExponent x - 52) (- 1074)"
  define ky where "ky = max (binaryExponent y - 52) (- 1074)"
  have y: "0 < y" using assms by simp
  have e: "binaryExponent x \<le> binaryExponent y"
    using assms by (rule binaryExponent_mono)
  then have "kx \<le> ky" by (simp add: kx_def ky_def)
  then consider "kx = ky" | "kx < ky" by linarith
  then show ?thesis
  proof cases
    case 1
    have "x / pow2 kx \<le> y / pow2 kx" by (rule divide_right_mono [OF assms(2)]) simp
    then have "roundHalfEven (x / pow2 kx) \<le> roundHalfEven (y / pow2 kx)"
      by (rule roundHalfEven_mono)
    then have "(of_int (roundHalfEven (x / pow2 kx)) :: rat) \<le> of_int (roundHalfEven (y / pow2 kx))"
      by (simp only: of_int_le_iff)
    then have "of_int (roundHalfEven (x / pow2 kx)) * pow2 kx
                 \<le> of_int (roundHalfEven (y / pow2 kx)) * pow2 kx"
      by (simp add: mult_right_mono)
    then show ?thesis
      using assms(1) y 1 by (simp add: toDouble_pos kx_def ky_def)
  next
    case 2
    define ey where "ey = binaryExponent y"
    have lt: "binaryExponent x < ey" and ky: "ky = ey - 52"
      using 2 by (auto simp: kx_def ky_def ey_def)
    have "x < pow2 (binaryExponent x + 1)" using assms(1) by (rule binaryExponent_bracket)
    also have "\<dots> \<le> pow2 ey" using lt by (intro pow2_mono) simp
    finally have "x \<le> pow2 ey" by simp
    moreover have "max (binaryExponent x - 52) (- 1074) \<le> ey"
      using 2 ky by (simp add: kx_def)
    ultimately have "toDouble x \<le> pow2 ey"
      using assms(1) by (intro toDouble_below_power)
    also have "pow2 ey \<le> toDouble y"
    proof (rule toDouble_above_power [OF y])
      show "pow2 ey \<le> y" unfolding ey_def using y by (rule binaryExponent_bracket)
      show "max (binaryExponent y - 52) (- 1074) \<le> ey"
        using ky by (simp add: ky_def ey_def)
    qed
    finally show ?thesis .
  qed
qed

lemma toDouble_mono:
  assumes "0 \<le> x" and "x \<le> y"
  shows "toDouble x \<le> toDouble y"
proof (cases "x = 0")
  case True
  then show ?thesis using assms toDouble_nonneg [of y] by (simp add: toDouble_def)
next
  case False
  then show ?thesis using assms by (intro toDouble_mono_pos) simp_all
qed

lemma binaryExponent_ge:
  assumes "0 < x" and "pow2 e \<le> x"
  shows "e \<le> binaryExponent x"
proof (rule ccontr)
  assume "\<not> e \<le> binaryExponent x"
  then have "binaryExponent x + 1 \<le> e" by simp
  then have "pow2 (binaryExponent x + 1) \<le> pow2 e" by (rule pow2_mono)
  moreover have "x < pow2 (binaryExponent x + 1)" using assms(1) by (rule binaryExponent_bracket)
  ultimately show False using assms(2) by simp
qed

lemma toDouble_error:
  assumes "0 < x" and "pow2 (- 1022) \<le> x"
  shows "\<bar>toDouble x - x\<bar> \<le> x / 2 ^ 53"
proof -
  define e where "e = binaryExponent x"
  have e: "- 1022 \<le> e" unfolding e_def using assms by (rule binaryExponent_ge)
  then have k: "max (e - 52) (- 1074) = e - 52" by simp
  define u where "u = pow2 (e - 52)"
  have u: "0 < u" by (simp add: u_def)
  have "toDouble x - x = (of_int (roundHalfEven (x / u)) - x / u) * u"
    using assms(1) u k by (simp add: toDouble_pos e_def u_def field_simps)
  then have "\<bar>toDouble x - x\<bar> = \<bar>of_int (roundHalfEven (x / u)) - x / u\<bar> * u"
    using u by (simp add: abs_mult)
  also have "\<dots> \<le> (1 / 2) * u"
    using roundHalfEven_error [of "x / u"] u by (intro mult_right_mono) simp_all
  also have "\<dots> = pow2 e / 2 ^ 53"
  proof -
    have "pow2 e = pow2 (e - 52) * pow2 52" by (simp flip: pow2_add)
    then show ?thesis by (simp add: u_def pow2_nat)
  qed
  also have "\<dots> \<le> x / 2 ^ 53"
    using binaryExponent_bracket(1) [OF assms(1)] by (simp add: e_def divide_right_mono)
  finally show ?thesis .
qed

lemma toDouble_minus: "toDouble (- x) = - toDouble x"
  by (simp add: toDouble_def Let_def)

lemma toDouble_mono_all:
  assumes "x \<le> y"
  shows "toDouble x \<le> toDouble y"
proof -
  consider "0 \<le> x" | "y \<le> 0" | "x < 0" "0 < y" by linarith
  then show ?thesis
  proof cases
    case 1
    then show ?thesis using assms by (rule toDouble_mono)
  next
    case 2
    then have "toDouble (- y) \<le> toDouble (- x)"
      using assms by (intro toDouble_mono) simp_all
    then show ?thesis by (simp add: toDouble_minus)
  next
    case 3
    have "toDouble (- x) \<ge> 0" using 3(1) by (intro toDouble_nonneg) simp
    moreover have "0 \<le> toDouble y" using 3(2) by (intro toDouble_nonneg) simp
    ultimately show ?thesis by (simp add: toDouble_minus)
  qed
qed

lemma jsPercent_mono:
  assumes "x \<le> y"
  shows "jsMultiply (toDouble x) 100 \<le> jsMultiply (toDouble y) 100"
proof -
  have "toDouble x * 100 \<le> toDouble y * 100"
    using toDouble_mono_all [OF assms] by simp
  then show ?thesis unfolding jsMultiply_def by (rule toDouble_mono_all)
qed

lemma percent_at_threshold: "jsMultiply (toDouble (4 / 5)) 100 = 80"
  by code_simp

lemma percent_below_threshold: "jsMultiply (toDouble (3999999999 / 5000000000)) 100 < 80"
  by code_simp

lemma status_threshold:
  assumes "0 < a" and "a \<le> 1000000000"
  shows "(80 \<le> jsMultiply (jsDivide (of_int u) (of_int a)) 100) = (4 * a \<le> 5 * u)"
proof (cases "4 * a \<le> 5 * u")
  case True
  then have "(of_int (4 * a) :: rat) \<le> of_int (5 * u)" by (simp only: of_int_le_iff)
  then have "(4 / 5 :: rat) \<le> of_int u / of_int a"
    using assms(1) by (simp add: field_simps)
  then have "jsMultiply (toDouble (4 / 5)) 100 \<le> jsMultiply (toDouble (of_int u / of_int a)) 100"
    by (rule jsPercent_mono)
  then show ?thesis using True by (simp add: jsDivide_def percent_at_threshold)
next
  case False
  then have "5 * u + 1 \<le> 4 * a" by simp
  then have "(of_int (5 * u + 1) :: rat) \<le> of_int (4 * a)" by (simp only: of_int_le_iff)
  then have "(of_int u / of_int a :: rat) \<le> 4 / 5 - 1 / (5 * of_int a)"
    using assms(1) by (simp add: field_simps)
  also have "\<dots> \<le> 4 / 5 - 1 / (5 * 1000000000)"
  proof -
    have "(of_int a :: rat) \<le> of_int 1000000000" using assms(2) by (simp only: of_int_le_iff)
    then have "1 / (5 * 1000000000) \<le> 1 / (5 * of_int a :: rat)"
      using assms(1) by (intro divide_left_mono) simp_all
    then show ?thesis by simp
  qed
  finally have "of_int u / of_int a \<le> (3999999999 / 5000000000 :: rat)" by simp
  then have "jsMultiply (toDouble (of_int u / of_int a)) 100
               \<le> jsMultiply (toDouble (3999999999 / 5000000000)) 100"
    by (rule jsPercent_mono)
  then show ?thesis using False percent_below_threshold by (simp add: jsDivide_def)
qed

lemma percentage_error:
  assumes "0 < u" and "0 < l" and "l \<le> 2 ^ 53"
  shows "\<bar>jsMultiply (jsDivide (of_int u) (of_int l)) 100 - of_int u / of_int l * 100\<bar>
           \<le> (of_int u / of_int l * 100) / 2 ^ 51"
proof -
  define q :: rat where "q = of_int u / of_int l"
  define d where "d = toDouble q"
  have "(1 :: rat) \<le> of_int u" using assms(1) by simp
  moreover have "(of_int l :: rat) \<le> of_int (2 ^ 53)" using assms(3) by (simp only: of_int_le_iff)
  ultimately have "1 / 2 ^ 53 \<le> q"
    using assms(2) unfolding q_def by (intro frac_le) simp_all
  then have qlo: "1 / 2 ^ 53 \<le> q" .
  then have qpos: "0 < q" by (rule less_le_trans [rotated]) simp
  have "pow2 (- 1022) \<le> 1 / 2 ^ 53"
    by (simp add: pow2_def power_int_def field_simps)
  then have "pow2 (- 1022) \<le> q" using qlo by simp
  then have e1: "\<bar>d - q\<bar> \<le> q / 2 ^ 53"
    unfolding d_def using qpos by (intro toDouble_error)
  have "q / 2 ^ 53 \<le> q / 2" using qpos by (intro divide_left_mono) simp_all
  with e1 have half: "\<bar>d - q\<bar> \<le> q / 2" by (rule order_trans)
  have dlo: "q / 2 \<le> d" using half by linarith
  have dhi: "d \<le> 2 * q" using half qpos by linarith
  have zpos: "0 < d * 100" using dlo qpos by simp
  have "pow2 (- 1022) \<le> 1 / 2 ^ 54" by (simp add: pow2_def power_int_def field_simps)
  also have "\<dots> \<le> q / 2" using qlo by simp
  also have "\<dots> \<le> d * 100" using dlo zpos by simp
  finally have e2: "\<bar>toDouble (d * 100) - d * 100\<bar> \<le> d * 100 / 2 ^ 53"
    using zpos by (intro toDouble_error)
  have "toDouble (d * 100) - q * 100 = (toDouble (d * 100) - d * 100) + (d - q) * 100"
    by (simp add: algebra_simps)
  then have "\<bar>toDouble (d * 100) - q * 100\<bar>
               \<le> \<bar>toDouble (d * 100) - d * 100\<bar> + \<bar>(d - q) * 100\<bar>"
    by (simp only: abs_triangle_ineq)
  also have "\<bar>(d - q) * 100\<bar> = \<bar>d - q\<bar> * 100" by (simp only: abs_mult abs_numeral)
  finally have "\<bar>toDouble (d * 100) - q * 100\<bar>
               \<le> \<bar>toDouble (d * 100) - d * 100\<bar> + \<bar>d - q\<bar> * 100" .
  also have "\<dots> \<le> d * 100 / 2 ^ 53 + q / 2 ^ 53 * 100"
    using e1 e2 by (intro add_mono) simp_all
  also have "\<dots> \<le> 2 * q * 100 / 2 ^ 53 + q / 2 ^ 53 * 100"
    using dhi by (simp add: divide_right_mono)
  also have "\<dots> \<le> q * 100 / 2 ^ 51"
    using qpos by (simp add: field_simps)
  finally show ?thesis by (simp add: jsMultiply_def jsDivide_def d_def q_def)
qed

section \<open>The compliance evaluator\<close>

lemma limitDays_accountant [simp]:
  "limitDays (calculateUnemploymentForPeriod spans p l ref) = l"
  by (simp add: calculateUnemploymentForPeriod_def Let_def)

lemma result_status:
  assumes "calculateUnemployment opt stem spans ro now = Some r"
  shows "(status r, statusMessage r) = determineStatus (totalUsedDays r) (totalAllowedDays r)"
  using assms
  by (auto simp: calculateUnemployment_def Let_def split: option.splits prod.splits)

lemma result_allowed:
  assumes "calculateUnemployment opt stem spans ro now = Some r"
  shows "totalAllowedDays r = 90 \<or> totalAllowedDays r = 150"
  using assms
  by (auto simp: calculateUnemployment_def Let_def OPT_UNEMPLOYMENT_LIMIT_def
        TOTAL_UNEMPLOYMENT_LIMIT_WITH_STEM_def split: option.splits prod.splits)

lemma ratio_threshold:
  assumes "0 < a"
  shows "((4 / 5 :: rat) \<le> of_int u / of_int a) = (4 * a \<le> 5 * u)"
proof -
  have "((4 / 5 :: rat) \<le> of_int u / of_int a) = ((of_int (4 * a) :: rat) \<le> of_int (5 * u))"
    using assms by (simp add: field_simps)
  then show ?thesis by (simp only: of_int_le_iff)
qed

text \<open>
  For a positive allowance (up to \<open>10 ^ 9\<close> days) the rounded test \<open>percentage \<ge> 80\<close> of
  \<open>determineStatus\<close> decides exactly whether used / allowed is at least 4/5.
\<close>

lemma determineStatus_cases:
  assumes "0 < a" and "a \<le> 1000000000"
  shows "determineStatus u a =
     (if u > a then (violation, ''You have exceeded the allowed unemployment days. You may be out of status. Please consult your international student office immediately.'')
      else if (of_int u / of_int a :: rat) \<ge> 4 / 5
      then (warning, ''You are approaching the unemployment limit. Please find employment soon to maintain status.'')
      else (normal, ''Your unemployment days are within the allowed limit.''))"
  unfolding determineStatus_def Let_def status_threshold [OF assms] ratio_threshold [OF assms(1)]
  by (rule refl)

text \<open>
  Claim C1. \<open>calculateUnemployment\<close> returns \<open>None\<close> if and only if the first (OPT) period
  is absent; whenever a first period is given it returns a result, whatever the second
  period, the employment spans and the reference date are (no branch of the pipeline
  raises).
\<close>

theorem calculateUnemployment_absent_iff:
  "(calculateUnemployment optPeriod stemPeriod spans optionsReferenceDate now = None \<longleftrightarrow>
      optPeriod = None) \<and>
   (\<forall>opt. \<exists>r. calculateUnemployment (Some opt) stemPeriod spans optionsReferenceDate now
              = Some r)"
  by (auto simp: calculateUnemployment_def Let_def split: option.splits prod.splits)

theorem calculateUnemployment_absent_iff_witness:
  "calculateUnemployment None None [] None 0 = None \<and>
   (\<exists>r. calculateUnemployment
          (Some \<lparr> ead_type = OPT, ead_startDate = 0, ead_endDate = 31449600000 \<rparr>)
          (Some \<lparr> ead_type = STEM, ead_startDate = 31536000000, ead_endDate = 94521600000 \<rparr>)
          [\<lparr> employerName = utf16 ''Acme'', span_startDate = 864000000, span_endDate = None \<rparr>]
          (Some 8553600005) 0 = Some r)"
  using calculateUnemployment_absent_iff [of None None "[]" None 0]
    calculateUnemployment_absent_iff
      [of "Some \<lparr> ead_type = OPT, ead_startDate = 0, ead_endDate = 31449600000 \<rparr>"
          "Some \<lparr> ead_type = STEM, ead_startDate = 31536000000, ead_endDate = 94521600000 \<rparr>"
          "[\<lparr> employerName = utf16 ''Acme'', span_startDate = 864000000, span_endDate = None \<rparr>]"
          "Some 8553600005" 0]
  by blast

text \<open>
  Claim C2. In every result of \<open>calculateUnemployment\<close> the status is \<open>violation\<close> exactly
  when the total of used days exceeds the total of allowed days; \<open>warning\<close> exactly when
  it does not and used / allowed is at least 4/5; \<open>normal\<close> exactly when neither holds;
  and the message is the fixed text of that status.
\<close>

theorem calculateUnemployment_status:
  assumes "calculateUnemployment optPeriod stemPeriod spans optionsReferenceDate now = Some r"
  shows "(status r = violation \<longleftrightarrow> totalUsedDays r > totalAllowedDays r) \<and>
         (status r = warning \<longleftrightarrow>
            \<not> totalUsedDays r > totalAllowedDays r \<and>
            (of_int (totalUsedDays r) / of_int (totalAllowedDays r) :: rat) \<ge> 4 / 5) \<and>
         (status r = normal \<longleftrightarrow>
            \<not> totalUsedDays r > totalAllowedDays r \<and>
            \<not> (of_int (totalUsedDays r) / of_int (totalAllowedDays r) :: rat) \<ge> 4 / 5) \<and>
         statusMessage r =
           (case status r of
              violation \<Rightarrow> ''You have exceeded the allowed unemployment days. You may be out of status. Please consult your international student office immediately.''
            | warning \<Rightarrow> ''You are approaching the unemployment limit. Please find employment soon to maintain status.''
            | normal \<Rightarrow> ''Your unemployment days are within the allowed limit.'')"
proof -
  have run: "(status r, statusMessage r) = determineStatus (totalUsedDays r) (totalAllowedDays r)"
    using assms by (rule result_status)
  have "0 < totalAllowedDays r" and "totalAllowedDays r \<le> 1000000000"
    using result_allowed [OF assms] by auto
  then have "determineStatus (totalUsedDays r) (totalAllowedDays r) =
     (if totalUsedDays r > totalAllowedDays r then (violation, ''You have exceeded the allowed unemployment days. You may be out of status. Please consult your international student office immediately.'')
      else if (of_int (totalUsedDays r) / of_int (totalAllowedDays r) :: rat) \<ge> 4 / 5
      then (warning, ''You are approaching the unemployment limit. Please find employment soon to maintain status.'')
      else (normal, ''Your unemployment days are within the allowed limit.''))"
    by (rule determineStatus_cases)
  with run show ?thesis
    by (simp split: if_splits)
qed

theorem calculateUnemployment_status_witness:
  "calculateUnemployment
     (Some \<lparr> ead_type = OPT, ead_startDate = 0, ead_endDate = 31449600000 \<rparr>) None []
     (Some 8553600005) 0
   = Some \<lparr> phase1 = \<lparr> phase = OPT, usedDays = 100, remainingDays = 0, limitDays = 90,
                         percentage = 3909374676536889 / 35184372088832 \<rparr>,
            phase2 = None, totalUsedDays = 100, totalAllowedDays = 90, status = violation,
            statusMessage = ''You have exceeded the allowed unemployment days. You may be out of status. Please consult your international student office immediately.'' \<rparr> \<and>
   (100 :: int) > 90"
proof -
  have run: "calculateUnemployment
     (Some \<lparr> ead_type = OPT, ead_startDate = 0, ead_endDate = 31449600000 \<rparr>) None []
     (Some 8553600005) 0
   = Some \<lparr> phase1 = \<lparr> phase = OPT, usedDays = 100, remainingDays = 0, limitDays = 90,
                         percentage = 3909374676536889 / 35184372088832 \<rparr>,
            phase2 = None, totalUsedDays = 100, totalAllowedDays = 90, status = violation,
            statusMessage = ''You have exceeded the allowed unemployment days. You may be out of status. Please consult your international student office immediately.'' \<rparr>"
    by code_simp
  show ?thesis
    using run calculateUnemployment_status [OF run] by simp
qed

text \<open>
  Claim C3. When a second (STEM) period is given, the second summary is computed with the
  limit \<open>max 0 (150 - usedDays phase1)\<close>, which is never negative, the total of used days
  is the sum of the two phases and the total allowed is 150. Without a second period
  there is no second summary, the total used is that of phase 1 and the total allowed
  is 90.
\<close>

theorem calculateUnemployment_totals:
  assumes "calculateUnemployment (Some opt) stemPeriod spans optionsReferenceDate now = Some r"
  shows "case stemPeriod of
           Some stem \<Rightarrow>
             (\<exists>q. phase2 r = Some q \<and>
                  q = calculateUnemploymentForPeriod spans stem
                        (max 0 (150 - usedDays (phase1 r)))
                        (getNormalizedReferenceDate optionsReferenceDate now) \<and>
                  limitDays q = max 0 (150 - usedDays (phase1 r)) \<and>
                  0 \<le> limitDays q \<and>
                  totalUsedDays r = usedDays (phase1 r) + usedDays q \<and>
                  totalAllowedDays r = 150)
         | None \<Rightarrow>
             phase2 r = None \<and> totalUsedDays r = usedDays (phase1 r) \<and>
             totalAllowedDays r = 90"
  using assms
  by (auto simp: calculateUnemployment_def Let_def OPT_UNEMPLOYMENT_LIMIT_def
        TOTAL_UNEMPLOYMENT_LIMIT_WITH_STEM_def split: option.splits prod.splits)

theorem calculateUnemployment_totals_witness:
  "calculateUnemployment
     (Some \<lparr> ead_type = OPT, ead_startDate = 0, ead_endDate = 31449600000 \<rparr>)
     (Some \<lparr> ead_type = STEM, ead_startDate = 31536000000, ead_endDate = 94521600000 \<rparr>)
     [\<lparr> employerName = utf16 ''Acme'', span_startDate = 864000000,
        span_endDate = Some 29721600000 \<rparr>,
      \<lparr> employerName = utf16 ''Bolt'', span_startDate = 31449600000, span_endDate = None \<rparr>]
     (Some 48816000007) 0
   = Some \<lparr> phase1 = \<lparr> phase = OPT, usedDays = 29, remainingDays = 61, limitDays = 90,
                         percentage = 4534874624782791 / 140737488355328 \<rparr>,
            phase2 = Some \<lparr> phase = STEM, usedDays = 0, remainingDays = 121,
                              limitDays = 121, percentage = 0 \<rparr>,
            totalUsedDays = 29, totalAllowedDays = 150, status = normal,
            statusMessage = ''Your unemployment days are within the allowed limit.'' \<rparr> \<and>
   (121 :: int) = max 0 (150 - 29)"
proof -
  have run: "calculateUnemployment
     (Some \<lparr> ead_type = OPT, ead_startDate = 0, ead_endDate = 31449600000 \<rparr>)
     (Some \<lparr> ead_type = STEM, ead_startDate = 31536000000, ead_endDate = 94521600000 \<rparr>)
     [\<lparr> employerName = utf16 ''Acme'', span_startDate = 864000000,
        span_endDate = Some 29721600000 \<rparr>,
      \<lparr> employerName = utf16 ''Bolt'', span_startDate = 31449600000, span_endDate = None \<rparr>]
     (Some 48816000007) 0
   = Some \<lparr> phase1 = \<lparr> phase = OPT, usedDays = 29, remainingDays = 61, limitDays = 90,
                         percentage = 4534874624782791 / 140737488355328 \<rparr>,
            phase2 = Some \<lparr> phase = STEM, usedDays = 0, remainingDays = 121,
                              limitDays = 121, percentage = 0 \<rparr>,
            totalUsedDays = 29, totalAllowedDays = 150, status = normal,
            statusMessage = ''Your unemployment days are within the allowed limit.'' \<rparr>"
    by code_simp
  show ?thesis
    using run calculateUnemployment_totals [OF run] by simp
qed

section \<open>The span merger\<close>

lemma mergeLoop_acc: "mergeLoop rest merged cur = merged @ mergeLoop rest [] cur"
proof (induction rest arbitrary: merged cur)
  case Nil
  show ?case by simp
next
  case (Cons nxt rest)
  show ?case
    using Cons.IH [of "merged @ [cur]" nxt] Cons.IH [of "[cur]" nxt] Cons.IH [of merged]
    by (simp add: Let_def)
qed

lemma merge_Nil [simp]: "mergeOverlappingSpans [] = []"
  by (simp add: mergeOverlappingSpans_def)

lemma merge_single [simp]: "mergeOverlappingSpans [a] = [a]"
  by (simp add: mergeOverlappingSpans_def)

lemma merge_step:
  "mergeOverlappingSpans (a # b # rest) =
     (if differenceInCalendarDays (startDate b) (endDate a) \<le> 1
      then mergeOverlappingSpans
             (\<lparr> startDate = startDate a, endDate = maxDate (endDate a) (endDate b) \<rparr> # rest)
      else a # mergeOverlappingSpans (b # rest))"
  using mergeLoop_acc [of rest "[a]" b]
  by (simp add: mergeOverlappingSpans_def Let_def)

lemma merge_head:
  "\<exists>c cs. mergeOverlappingSpans (a # rest) = c # cs \<and> startDate c = startDate a \<and>
          separated (c # cs)"
proof (induction rest arbitrary: a)
  case Nil
  show ?case by simp
next
  case (Cons b rest)
  show ?case
  proof (cases "differenceInCalendarDays (startDate b) (endDate a) \<le> 1")
    case True
    then show ?thesis
      using Cons.IH [of "\<lparr> startDate = startDate a, endDate = maxDate (endDate a) (endDate b) \<rparr>"]
      by (simp add: merge_step)
  next
    case False
    obtain c cs where c: "mergeOverlappingSpans (b # rest) = c # cs"
      "startDate c = startDate b" "separated (c # cs)"
      using Cons.IH [of b] by blast
    with False show ?thesis by (simp add: merge_step)
  qed
qed

lemma separated_merge: "separated (mergeOverlappingSpans spans)"
proof (cases spans)
  case Nil
  then show ?thesis by simp
next
  case (Cons a rest)
  then show ?thesis using merge_head [of a rest] by auto
qed

lemma merge_preserves:
  assumes step: "\<And>a b. P a \<Longrightarrow> P b \<Longrightarrow>
                   P \<lparr> startDate = startDate a, endDate = maxDate (endDate a) (endDate b) \<rparr>"
  shows "\<forall>m \<in> set (a # rest). P m \<Longrightarrow> \<forall>m \<in> set (mergeOverlappingSpans (a # rest)). P m"
proof (induction rest arbitrary: a)
  case Nil
  then show ?case by simp
next
  case (Cons b rest)
  show ?case
  proof (cases "differenceInCalendarDays (startDate b) (endDate a) \<le> 1")
    case True
    have "\<forall>m \<in> set (\<lparr> startDate = startDate a, endDate = maxDate (endDate a) (endDate b) \<rparr> # rest). P m"
      using Cons.prems step [of a b] by simp
    then show ?thesis
      using True Cons.IH by (simp only: merge_step if_True)
  next
    case False
    have "\<forall>m \<in> set (b # rest). P m" using Cons.prems by simp
    then have "\<forall>m \<in> set (mergeOverlappingSpans (b # rest)). P m" by (rule Cons.IH)
    then show ?thesis
      using False Cons.prems by (simp add: merge_step)
  qed
qed

lemma merge_preserves_all:
  assumes "\<And>a b. P a \<Longrightarrow> P b \<Longrightarrow>
                   P \<lparr> startDate = startDate a, endDate = maxDate (endDate a) (endDate b) \<rparr>"
    and "\<forall>m \<in> set spans. P m"
  shows "\<forall>m \<in> set (mergeOverlappingSpans spans). P m"
proof (cases spans)
  case Nil
  then show ?thesis by simp
next
  case (Cons a rest)
  then show ?thesis using merge_preserves [of P a rest] assms by blast
qed


lemma bounded_merge:
  assumes "\<forall>m \<in> set spans. lo \<le> dayNumber (startDate m) \<and> dayNumber (endDate m) \<le> hi"
  shows "\<forall>m \<in> set (mergeOverlappingSpans spans).
           lo \<le> dayNumber (startDate m) \<and> dayNumber (endDate m) \<le> hi"
  by (rule merge_preserves_all
        [where P = "\<lambda>m. lo \<le> dayNumber (startDate m) \<and> dayNumber (endDate m) \<le> hi"])
     (use assms in \<open>auto simp: dayNumber_maxDate\<close>)


lemma merge_unchanged: "separated spans \<Longrightarrow> mergeOverlappingSpans spans = spans"
proof (induction spans rule: separated.induct)
  case (1 a b rest)
  then show ?case by (simp add: merge_step)
qed simp_all

lemma merge_idem:
  "mergeOverlappingSpans (mergeOverlappingSpans spans) = mergeOverlappingSpans spans"
  by (rule merge_unchanged) (rule separated_merge)

section \<open>Sorting\<close>

lemma insertSorted_insort_key:
  "insertSorted (\<lambda>a b. differenceInCalendarDays (startDate a) (startDate b)) x ys =
   insort_key (\<lambda>m. dayNumber (startDate m)) x ys"
  by (induction ys) (simp_all add: differenceInCalendarDays_dayNumber)

lemma sortByStart_sort_key: "sortByStart spans = sort_key (\<lambda>m. dayNumber (startDate m)) spans"
  by (induction spans) (simp_all add: sortByStart_def arraySort_def insertSorted_insort_key)



lemma set_sortByStart: "set (sortByStart spans) = set spans"
  by (simp add: sortByStart_sort_key)

lemma sortByStart_unchanged: "sortedByStart spans \<Longrightarrow> sortByStart spans = spans"
  by (simp add: sortedByStart_def sortByStart_sort_key sort_key_id_if_sorted)

section \<open>Merged form\<close>

lemma mergedForm_Cons:
  "mergedForm (a # b # rest) \<longleftrightarrow>
     startDate a \<le> endDate a \<and> dayNumber (endDate a) + 1 < dayNumber (startDate b) \<and>
     mergedForm (b # rest)"
  by (auto simp: mergedForm_def differenceInCalendarDays_dayNumber)

lemma mergedForm_tail: "mergedForm (a # rest) \<Longrightarrow> mergedForm rest"
  by (cases rest) (auto simp: mergedForm_def)

lemma mergedForm_pairwise:
  "mergedForm spans \<Longrightarrow>
   sorted_wrt (\<lambda>a b. differenceInCalendarDays (startDate b) (endDate a) > 1) spans"
proof (induction spans)
  case Nil
  show ?case by simp
next
  case (Cons a rest)
  have tl: "mergedForm rest" using Cons.prems by (rule mergedForm_tail)
  have "\<forall>b \<in> set rest. dayNumber (endDate a) + 1 < dayNumber (startDate b)"
  proof (cases rest)
    case Nil
    then show ?thesis by simp
  next
    case (Cons b rest')
    have ab: "dayNumber (endDate a) + 1 < dayNumber (startDate b)"
      using Cons.prems Cons by (simp add: mergedForm_Cons)
    have wf: "dayNumber (startDate b) \<le> dayNumber (endDate b)"
      using tl Cons by (simp add: mergedForm_def dayNumber_mono)
    have "\<forall>c \<in> set rest'. dayNumber (endDate b) + 1 < dayNumber (startDate c)"
      using Cons.IH [OF tl] Cons by (fastforce simp: differenceInCalendarDays_dayNumber)
    with ab wf show ?thesis using Cons by auto
  qed
  then show ?case
    using Cons.IH [OF tl] by (fastforce simp: differenceInCalendarDays_dayNumber)
qed

lemma mergedForm_sorted: "mergedForm spans \<Longrightarrow> sortedByStart spans"
proof (induction spans)
  case Nil
  show ?case by (simp add: sortedByStart_def)
next
  case (Cons a rest)
  have "\<forall>b \<in> set rest. dayNumber (endDate a) + 1 < dayNumber (startDate b)"
    using mergedForm_pairwise [OF Cons.prems]
    by (fastforce simp: differenceInCalendarDays_dayNumber)
  moreover have "dayNumber (startDate a) \<le> dayNumber (endDate a)"
    using Cons.prems by (simp add: mergedForm_def dayNumber_mono)
  ultimately have "\<forall>b \<in> set rest. dayNumber (startDate a) \<le> dayNumber (startDate b)"
    by fastforce
  then show ?case
    using Cons.IH [OF mergedForm_tail [OF Cons.prems]] by (simp add: sortedByStart_def)
qed

section \<open>Day counts\<close>

lemma foldl_days:
  "foldl (\<lambda>total mspan. total + calculateDaysBetween (startDate mspan) (endDate mspan)) acc spans
   = acc + employedDaysOf spans"
  by (induction spans arbitrary: acc) (simp_all add: employedDaysOf_def)

lemma calculateEmployedDays_eq:
  "calculateEmployedDays spans p ref =
   employedDaysOf (mergeOverlappingSpans (sortByStart (clampAll spans p ref)))"
  by (simp add: calculateEmployedDays_def Let_def foldl_days)


lemma employedDaysOf_separated:
  "separated (a # rest) \<Longrightarrow> \<forall>m \<in> set (a # rest). dayNumber (endDate m) \<le> hi \<Longrightarrow>
   employedDaysOf (a # rest) \<le> hi - dayNumber (startDate a) + 1"
proof (induction rest arbitrary: a)
  case Nil
  then show ?case by (simp add: employedDaysOf_def calculateDaysBetween_dayNumber)
next
  case (Cons b rest)
  have "employedDaysOf (b # rest) \<le> hi - dayNumber (startDate b) + 1"
    using Cons.prems by (intro Cons.IH) simp_all
  moreover have "dayNumber (endDate a) + 1 < dayNumber (startDate b)"
    using Cons.prems(1) by (simp add: differenceInCalendarDays_dayNumber)
  ultimately show ?case
    by (simp add: employedDaysOf_def calculateDaysBetween_dayNumber)
qed

lemma employedDaysOf_bounded:
  assumes "separated spans"
    and "\<forall>m \<in> set spans. lo \<le> dayNumber (startDate m) \<and> dayNumber (endDate m) \<le> hi"
    and "lo \<le> hi + 1"
  shows "employedDaysOf spans \<le> hi - lo + 1"
proof (cases spans)
  case Nil
  then show ?thesis using assms(3) by (simp add: employedDaysOf_def)
next
  case (Cons a rest)
  have "employedDaysOf (a # rest) \<le> hi - dayNumber (startDate a) + 1"
    using assms(1,2) Cons by (intro employedDaysOf_separated) simp_all
  moreover have "lo \<le> dayNumber (startDate a)" using assms(2) Cons by simp
  ultimately show ?thesis using Cons by simp
qed

section \<open>Coverage\<close>

lemma covers_Cons:
  "covers (a # rest) d \<longleftrightarrow>
     (dayNumber (startDate a) \<le> d \<and> d \<le> dayNumber (endDate a)) \<or> covers rest d"
  by (auto simp: covers_def)

lemma covers_merge_sorted:
  "sortedByStart (a # rest) \<Longrightarrow> covers (mergeOverlappingSpans (a # rest)) d = covers (a # rest) d"
proof (induction rest arbitrary: a)
  case Nil
  show ?case by simp
next
  case (Cons b rest)
  let ?a' = "\<lparr> startDate = startDate a, endDate = maxDate (endDate a) (endDate b) \<rparr>"
  have ab: "dayNumber (startDate a) \<le> dayNumber (startDate b)"
    using Cons.prems by (simp add: sortedByStart_def)
  show ?case
  proof (cases "differenceInCalendarDays (startDate b) (endDate a) \<le> 1")
    case True
    have "sortedByStart (?a' # rest)"
      using Cons.prems by (auto simp: sortedByStart_def)
    then have "covers (mergeOverlappingSpans (?a' # rest)) d = covers (?a' # rest) d"
      by (rule Cons.IH)
    moreover have "covers (?a' # rest) d = covers (a # b # rest) d"
      using True ab
      by (auto simp: covers_Cons dayNumber_maxDate differenceInCalendarDays_dayNumber)
    ultimately show ?thesis using True by (simp add: merge_step)
  next
    case False
    have "sortedByStart (b # rest)"
      using Cons.prems by (simp add: sortedByStart_def)
    then have "covers (mergeOverlappingSpans (b # rest)) d = covers (b # rest) d"
      by (rule Cons.IH)
    then show ?thesis using False by (simp add: merge_step covers_Cons)
  qed
qed

section \<open>Properties of the span merger\<close>



text \<open>
  The walk itself does not reorder: \<open>mergeOverlappingSpans\<close> expects a list sorted by
  start date (its comment says so) and \<open>calculateEmployedDays\<close> sorts before calling it.
  On an unsorted list the later, earlier-starting span is absorbed into the first one.
\<close>

lemma merge_relies_on_sorted_input:
  "mergeOverlappingSpans
     [\<lparr> startDate = 864000000, endDate = 1036800000 \<rparr>,
      \<lparr> startDate = 86400000, endDate = 259200000 \<rparr>]
   = [\<lparr> startDate = 864000000, endDate = 1036800000 \<rparr>] \<and>
   mergeOverlappingSpans (sortByStart
     [\<lparr> startDate = 864000000, endDate = 1036800000 \<rparr>,
      \<lparr> startDate = 86400000, endDate = 259200000 \<rparr>])
   = [\<lparr> startDate = 86400000, endDate = 259200000 \<rparr>,
      \<lparr> startDate = 864000000, endDate = 1036800000 \<rparr>]"
  by code_simp

text \<open>
  Two spans (section 8 of the specification): one span over both when the second starts
  at most one day after the first ends, both spans otherwise.
\<close>

lemma merge_two:
  "mergeOverlappingSpans [a, b] =
     (if differenceInCalendarDays (startDate b) (endDate a) \<le> 1
      then [\<lparr> startDate = startDate a, endDate = max (endDate a) (endDate b) \<rparr>]
      else [a, b])"
  by (simp add: merge_step maxDate_def max_def)

text \<open>
  Claim C7. A list that is already in merged form (ascending, every span from a start to
  a later or equal end, consecutive spans more than one day apart) is returned unchanged by
  \<open>mergeOverlappingSpans\<close>, also when it is sorted first as \<open>calculateEmployedDays\<close> does.
\<close>

theorem merge_idempotent:
  assumes "mergedForm spans"
  shows "sortedByStart spans \<and>
         mergeOverlappingSpans spans = spans \<and>
         mergeOverlappingSpans (sortByStart spans) = spans"
proof -
  have "separated spans" using assms by (simp add: mergedForm_def)
  then have "mergeOverlappingSpans spans = spans" by (rule merge_unchanged)
  moreover have "sortedByStart spans" using assms by (rule mergedForm_sorted)
  ultimately show ?thesis by (simp add: sortByStart_unchanged)
qed

theorem merge_idempotent_witness:
  "mergedForm [\<lparr> startDate = 86400000, endDate = 432000000 \<rparr>,
      \<lparr> startDate = 864000000, endDate = 1036800000 \<rparr>,
      \<lparr> startDate = 1728000000, endDate = 1814400000 \<rparr>] \<and>
   mergeOverlappingSpans [\<lparr> startDate = 86400000, endDate = 432000000 \<rparr>,
      \<lparr> startDate = 864000000, endDate = 1036800000 \<rparr>,
      \<lparr> startDate = 1728000000, endDate = 1814400000 \<rparr>]
   = [\<lparr> startDate = 86400000, endDate = 432000000 \<rparr>,
      \<lparr> startDate = 864000000, endDate = 1036800000 \<rparr>,
      \<lparr> startDate = 1728000000, endDate = 1814400000 \<rparr>]"
proof -
  have form: "mergedForm [\<lparr> startDate = 86400000, endDate = 432000000 \<rparr>,
      \<lparr> startDate = 864000000, endDate = 1036800000 \<rparr>,
      \<lparr> startDate = 1728000000, endDate = 1814400000 \<rparr>]"
    by (simp add: mergedForm_def differenceInCalendarDays_def startOfDay_def
          millisecondsInDay_def)
  show ?thesis
    using form merge_idempotent [OF form] by simp
qed

text \<open>
  Claim C10. On a list sorted by start day, \<open>mergeOverlappingSpans\<close> keeps every covered
  calendar day covered. It also covers no other day: spans are joined only when the next
  one starts at most one day after the current one ends, and then no day lies between
  them.
\<close>

theorem merge_coverage:
  assumes "sortedByStart spans"
  shows "(covers spans d \<longrightarrow> covers (mergeOverlappingSpans spans) d) \<and>
         (covers (mergeOverlappingSpans spans) d \<longrightarrow> covers spans d)"
proof (cases spans)
  case Nil
  then show ?thesis by simp
next
  case (Cons a rest)
  then show ?thesis using covers_merge_sorted [of a rest d] assms by simp
qed

theorem merge_coverage_witness:
  "sortedByStart [\<lparr> startDate = 86400000, endDate = 259200000 \<rparr>,
                  \<lparr> startDate = 345600000, endDate = 432000000 \<rparr>,
                  \<lparr> startDate = 864000000, endDate = 1036800000 \<rparr>] \<and>
   covers [\<lparr> startDate = 86400000, endDate = 259200000 \<rparr>,
           \<lparr> startDate = 345600000, endDate = 432000000 \<rparr>,
           \<lparr> startDate = 864000000, endDate = 1036800000 \<rparr>] 4 \<and>
   covers (mergeOverlappingSpans
          [\<lparr> startDate = 86400000, endDate = 259200000 \<rparr>,
           \<lparr> startDate = 345600000, endDate = 432000000 \<rparr>,
           \<lparr> startDate = 864000000, endDate = 1036800000 \<rparr>]) 4"
proof -
  have srt: "sortedByStart [\<lparr> startDate = 86400000, endDate = 259200000 \<rparr>,
                  \<lparr> startDate = 345600000, endDate = 432000000 \<rparr>,
                  \<lparr> startDate = 864000000, endDate = 1036800000 \<rparr>]"
    by (simp add: sortedByStart_def dayNumber_def millisecondsInDay_def)
  have cov: "covers [\<lparr> startDate = 86400000, endDate = 259200000 \<rparr>,
           \<lparr> startDate = 345600000, endDate = 432000000 \<rparr>,
           \<lparr> startDate = 864000000, endDate = 1036800000 \<rparr>] 4"
    by (simp add: covers_def dayNumber_def millisecondsInDay_def)
  show ?thesis
    using srt cov merge_coverage [OF srt, of 4] by blast
qed

section \<open>Clamped spans\<close>

lemma clampAll_set:
  "m \<in> set (clampAll spans p ref) \<longleftrightarrow> (\<exists>espan \<in> set spans. clampSpanToEAD espan p ref = Some m)"
  by (induction spans) (auto simp: clampAll_def split: option.splits)

lemma clamp_bounds:
  assumes "clampSpanToEAD espan p ref = Some m"
  shows "dayNumber (ead_startDate p) \<le> dayNumber (startDate m) \<and>
         dayNumber (endDate m) \<le> dayNumber (ead_endDate p)"
proof -
  have "dayNumber (startOfDay (ead_startDate p)) \<le> dayNumber (startDate m)"
    using assms
    by (auto simp: clampSpanToEAD_def Let_def normalizeDate_def dayNumber_maxDate
          simp del: dayNumber_startOfDay split: if_splits)
  moreover have "dayNumber (endDate m) \<le> dayNumber (startOfDay (ead_endDate p))"
    using assms
    by (auto simp: clampSpanToEAD_def Let_def normalizeDate_def dayNumber_minDate
          simp del: dayNumber_startOfDay split: if_splits)
  ultimately show ?thesis by simp
qed


lemma calculateEmployedDays_le:
  assumes "dayNumber (ead_startDate p) \<le> dayNumber (ead_endDate p) + 1"
  shows "calculateEmployedDays spans p ref \<le> calculateDaysBetween (ead_startDate p) (ead_endDate p)"
proof -
  let ?ms = "mergeOverlappingSpans (sortByStart (clampAll spans p ref))"
  have "\<forall>m \<in> set (sortByStart (clampAll spans p ref)).
          dayNumber (ead_startDate p) \<le> dayNumber (startDate m) \<and>
          dayNumber (endDate m) \<le> dayNumber (ead_endDate p)"
    by (auto simp: set_sortByStart clampAll_set dest: clamp_bounds)
  then have "\<forall>m \<in> set ?ms.
          dayNumber (ead_startDate p) \<le> dayNumber (startDate m) \<and>
          dayNumber (endDate m) \<le> dayNumber (ead_endDate p)"
    by (rule bounded_merge)
  then have "employedDaysOf ?ms \<le> dayNumber (ead_endDate p) - dayNumber (ead_startDate p) + 1"
    using assms by (intro employedDaysOf_bounded separated_merge) simp_all
  then show ?thesis
    by (simp add: calculateEmployedDays_eq calculateDaysBetween_dayNumber)
qed


section \<open>The period accountant\<close>

lemma accountant_before_start:
  assumes "isBefore (minDate (normalizeDate (ead_endDate p)) ref) (normalizeDate (ead_startDate p))"
  shows "calculateUnemploymentForPeriod spans p limit ref =
           \<lparr> phase = ead_type p, usedDays = 0, remainingDays = limit, limitDays = limit,
             percentage = 0 \<rparr>"
  using assms by (simp add: calculateUnemploymentForPeriod_def Let_def)

lemma accountant_started:
  assumes "\<not> isBefore (minDate (normalizeDate (ead_endDate p)) ref) (normalizeDate (ead_startDate p))"
  shows "calculateUnemploymentForPeriod spans p limit ref =
           (let eadStart = normalizeDate (ead_startDate p);
                effectiveEnd = minDate (normalizeDate (ead_endDate p)) ref;
                used = max 0 (calculateDaysBetween eadStart effectiveEnd -
                         calculateEmployedDays spans
                           (p \<lparr> ead_startDate := eadStart, ead_endDate := effectiveEnd \<rparr>) ref)
            in \<lparr> phase = ead_type p, usedDays = used, remainingDays = max 0 (limit - used),
                 limitDays = limit,
                 percentage = (if limit > 0
                               then jsMultiply (jsDivide (of_int used) (of_int limit)) 100
                               else if used > 0 then 100 else 0) \<rparr>)"
  using assms by (simp add: calculateUnemploymentForPeriod_def Let_def)

lemma adjusted_employed_le:
  assumes "normalizeDate (ead_startDate p) \<le> minDate (normalizeDate (ead_endDate p)) ref"
  shows "calculateEmployedDays spans
           (p \<lparr> ead_startDate := normalizeDate (ead_startDate p),
                ead_endDate := minDate (normalizeDate (ead_endDate p)) ref \<rparr>) ref
         \<le> calculateDaysBetween (normalizeDate (ead_startDate p))
              (minDate (normalizeDate (ead_endDate p)) ref)"
proof -
  let ?p' = "p \<lparr> ead_startDate := normalizeDate (ead_startDate p),
                 ead_endDate := minDate (normalizeDate (ead_endDate p)) ref \<rparr>"
  have "dayNumber (ead_startDate ?p') \<le> dayNumber (ead_endDate ?p') + 1"
    using dayNumber_mono [OF assms] by simp
  then have "calculateEmployedDays spans ?p' ref
               \<le> calculateDaysBetween (ead_startDate ?p') (ead_endDate ?p')"
    by (rule calculateEmployedDays_le)
  then show ?thesis by simp
qed


lemma minDate_min: "minDate a b = min a b"
  by (simp add: minDate_def min_def)


lemma jsPercent_error:
  assumes "0 \<le> u" and "0 < l" and "l \<le> 2 ^ 53"
  shows "\<bar>jsMultiply (jsDivide (of_int u) (of_int l)) 100 - of_int u / of_int l * 100\<bar>
           \<le> (of_int u / of_int l * 100) / 2 ^ 51"
proof (cases "u = 0")
  case True
  then show ?thesis by (simp add: jsMultiply_def jsDivide_def toDouble_def)
next
  case False
  then have "0 < u" using assms(1) by simp
  then show ?thesis using assms(2,3) by (rule percentage_error)
qed

text \<open>
  Claim C4, as amended. For every list of employment spans, period, limit and reference
  date, the summary computed by \<open>calculateUnemploymentForPeriod\<close> carries the period's phase
  and the limit, and: if the effective end \<open>min periodEnd referenceDate\<close> is before the
  period's start, then used = 0, remaining = limit and percentage = 0; otherwise used is
  the day count of the effective window minus the employed days, floored at zero,
  remaining is \<open>max 0 (limit - used)\<close>, and used + employed equals the day count of the
  effective window (the floor at zero never takes effect). When the limit is positive,
  the percentage is \<^verbatim>\<open>(used / limit) * 100\<close> in double arithmetic, the quotient rounded to
  the nearest double and the product rounded again, so it is the exact value
  used / limit * 100 only up to a relative error of \<open>2 ^ (- 51)\<close> (for limits up to
  \<open>2 ^ 53\<close>); when the limit is not positive it is 100 if used is positive, else 0.
\<close>

theorem accountant_summary:
  fixes spans :: "EmploymentSpan list" and p :: EADPeriod and limit :: int and ref :: Date
  defines "eadStart \<equiv> normalizeDate (ead_startDate p)"
  defines "effectiveEnd \<equiv> min (normalizeDate (ead_endDate p)) ref"
  defines "s \<equiv> calculateUnemploymentForPeriod spans p limit ref"
  defines "totalDaysInPeriod \<equiv> calculateDaysBetween eadStart effectiveEnd"
  defines "employedDays \<equiv> calculateEmployedDays spans
                        (p \<lparr> ead_startDate := eadStart, ead_endDate := effectiveEnd \<rparr>) ref"
  shows "phase s = ead_type p \<and> limitDays s = limit \<and>
         (if effectiveEnd < eadStart
          then usedDays s = 0 \<and> remainingDays s = limit \<and> percentage s = 0
          else usedDays s = max 0 (totalDaysInPeriod - employedDays) \<and>
               remainingDays s = max 0 (limit - usedDays s) \<and>
               percentage s =
                 (if limit > 0
                  then jsMultiply (jsDivide (of_int (usedDays s)) (of_int limit)) 100
                  else if usedDays s > 0 then 100 else 0) \<and>
               (0 < limit \<and> limit \<le> 2 ^ 53 \<longrightarrow>
                  \<bar>percentage s - of_int (usedDays s) / of_int limit * 100\<bar>
                    \<le> (of_int (usedDays s) / of_int limit * 100) / 2 ^ 51) \<and>
               usedDays s + employedDays = totalDaysInPeriod)"
proof (cases "effectiveEnd < eadStart")
  case True
  then have "isBefore (minDate (normalizeDate (ead_endDate p)) ref) (normalizeDate (ead_startDate p))"
    by (simp add: isBefore_def minDate_min eadStart_def effectiveEnd_def)
  then show ?thesis
    using True by (simp add: accountant_before_start s_def)
next
  case False
  then have nb: "\<not> isBefore (minDate (normalizeDate (ead_endDate p)) ref)
                    (normalizeDate (ead_startDate p))"
    by (simp add: isBefore_def minDate_min eadStart_def effectiveEnd_def)
  have "normalizeDate (ead_startDate p) \<le> minDate (normalizeDate (ead_endDate p)) ref"
    using nb by (simp add: isBefore_def)
  then have le: "employedDays \<le> totalDaysInPeriod"
    unfolding employedDays_def totalDaysInPeriod_def eadStart_def effectiveEnd_def
      minDate_min [symmetric]
    by (rule adjusted_employed_le)
  define used where "used = max 0 (totalDaysInPeriod - employedDays)"
  have s: "s = \<lparr> phase = ead_type p, usedDays = used, remainingDays = max 0 (limit - used),
                 limitDays = limit,
                 percentage = (if limit > 0
                               then jsMultiply (jsDivide (of_int used) (of_int limit)) 100
                               else if used > 0 then 100 else 0) \<rparr>"
    unfolding s_def accountant_started [OF nb]
    by (simp add: Let_def used_def employedDays_def totalDaysInPeriod_def eadStart_def
          effectiveEnd_def minDate_min)
  have used: "0 \<le> used" by (simp add: used_def)
  have close: "0 < limit \<and> limit \<le> 2 ^ 53 \<longrightarrow>
                  \<bar>percentage s - of_int used / of_int limit * 100\<bar>
                    \<le> (of_int used / of_int limit * 100) / 2 ^ 51"
    using jsPercent_error [OF used, of limit] by (simp add: s)
  show ?thesis
    using False le close by (simp add: s used_def)
qed

theorem accountant_summary_witness:
  "\<not> min (normalizeDate 31449600000) 8553600000 < normalizeDate 0 \<and>
   usedDays (calculateUnemploymentForPeriod
     [\<lparr> employerName = utf16 ''Acme'', span_startDate = 864000000,
        span_endDate = Some 29721600000 \<rparr>]
     \<lparr> ead_type = OPT, ead_startDate = 0, ead_endDate = 31449600000 \<rparr> 90 8553600000) = 10 \<and>
   percentage (calculateUnemploymentForPeriod
     [\<lparr> employerName = utf16 ''Acme'', span_startDate = 864000000,
        span_endDate = Some 29721600000 \<rparr>]
     \<lparr> ead_type = OPT, ead_startDate = 0, ead_endDate = 31449600000 \<rparr> 90 8553600000)
     = jsMultiply (jsDivide 10 90) 100 \<and>
   calculateEmployedDays
     [\<lparr> employerName = utf16 ''Acme'', span_startDate = 864000000,
        span_endDate = Some 29721600000 \<rparr>]
     \<lparr> ead_type = OPT, ead_startDate = normalizeDate 0,
       ead_endDate = min (normalizeDate 31449600000) 8553600000 \<rparr> 8553600000 = 90 \<and>
   calculateDaysBetween (normalizeDate 0) (min (normalizeDate 31449600000) 8553600000) = 100"
proof -
  have started: "\<not> min (normalizeDate 31449600000) 8553600000 < normalizeDate 0"
    by (simp add: normalizeDate_def startOfDay_def millisecondsInDay_def)
  have days: "calculateDaysBetween (normalizeDate 0)
                (min (normalizeDate 31449600000) 8553600000) = 100"
    by code_simp
  have employed: "calculateEmployedDays
     [\<lparr> employerName = utf16 ''Acme'', span_startDate = 864000000,
        span_endDate = Some 29721600000 \<rparr>]
     \<lparr> ead_type = OPT, ead_startDate = normalizeDate 0,
       ead_endDate = min (normalizeDate 31449600000) 8553600000 \<rparr> 8553600000 = 90"
    by code_simp
  show ?thesis
    using started days employed
      accountant_summary
        [where spans = "[\<lparr> employerName = utf16 ''Acme'', span_startDate = 864000000,
                          span_endDate = Some 29721600000 \<rparr>]"
           and p = "\<lparr> ead_type = OPT, ead_startDate = 0, ead_endDate = 31449600000 \<rparr>"
           and limit = 90 and ref = 8553600000]
    by simp
qed

text \<open>
  The percentage is not the exact quotient: 99 days into a period without employment,
  with the limit 90, the quotient 99 / 90 rounds to a double just above 1.1 and the
  product to the double just above 110, \<^verbatim>\<open>110.00000000000001\<close>, that is
  \<open>110 + 2 ^ (- 46)\<close>.
\<close>

theorem accountant_percentage_counterexample:
  "usedDays (calculateUnemploymentForPeriod []
     \<lparr> ead_type = OPT, ead_startDate = 0, ead_endDate = 31449600000 \<rparr> 90 8467200000) = 99 \<and>
   percentage (calculateUnemploymentForPeriod []
     \<lparr> ead_type = OPT, ead_startDate = 0, ead_endDate = 31449600000 \<rparr> 90 8467200000)
     = 7740561859543041 / 70368744177664 \<and>
   percentage (calculateUnemploymentForPeriod []
     \<lparr> ead_type = OPT, ead_startDate = 0, ead_endDate = 31449600000 \<rparr> 90 8467200000)
     \<noteq> of_int (usedDays (calculateUnemploymentForPeriod []
          \<lparr> ead_type = OPT, ead_startDate = 0, ead_endDate = 31449600000 \<rparr> 90 8467200000))
        / of_int 90 * 100"
  by code_simp

section \<open>Validated input\<close>






end
